theory Spec2Isabelle
  imports Complex_Main
begin

section \<open>Python numbers\<close>

text \<open>
  A speed is a Python number, an \<open>int\<close> or a \<open>float\<close>. Both are modelled by their value, a
  rational. Comparison, \<open>abs\<close>, \<open>min\<close>, \<open>max\<close> and the sum of two ints are exact on values;
  the sum \<open>speed + change\<close> of a ramp step is taken exactly, and every statement below that
  depends on it is about stored speeds that are whole numbers.
  The one operation of the driver that always computes in floating point is the product
  \<open>p * 655.35\<close> of \<open>percent_to_duty\<close>: the literal and the product are each rounded to the
  float of the machine (round to nearest, ties to even). The number of significant bits of
  that float is a parameter of the model, \<open>bits\<close>: 53 where a float is an IEEE 754 binary64,
  24 where it is a binary32. Exponent range, infinities and NaN are left out: the product
  lies in \<open>[0, 65536]\<close>.
\<close>

definition round_half_even :: "rat \<Rightarrow> int" where
  "round_half_even x =
     (let f = \<lfloor>x\<rfloor>; d = x - of_int f
      in if d < 1 / 2 then f else if 1 / 2 < d then f + 1 else if even f then f else f + 1)"

text \<open>Python's \<open>round(x)\<close> of a float: the nearest int, a tie going to the even one.\<close>

definition py_round :: "rat \<Rightarrow> int" where
  "py_round x = round_half_even x"

fun bit_length :: "nat \<Rightarrow> nat" where
  "bit_length n = (if n = 0 then 0 else Suc (bit_length (n div 2)))"

declare bit_length.simps [simp del]

text \<open>The binary exponent of a positive number: \<open>2 ^ e \<le> x < 2 ^ (e + 1)\<close>.\<close>

definition float_exponent :: "rat \<Rightarrow> int" where
  "float_exponent x =
     (if 1 \<le> x then int (bit_length (nat \<lfloor>x\<rfloor>)) - 1
      else - int (bit_length (nat (\<lceil>1 / x\<rceil> - 1))))"

definition pow2 :: "int \<Rightarrow> rat" where
  "pow2 e = (if 0 \<le> e then 2 ^ nat e else 1 / 2 ^ nat (- e))"

definition float_round :: "nat \<Rightarrow> rat \<Rightarrow> rat" where
  "float_round prec x =
     (if x = 0 then 0
      else let u = pow2 (float_exponent \<bar>x\<bar> - (int prec - 1))
           in sgn x * of_int (round_half_even (\<bar>x\<bar> / u)) * u)"

section \<open>Duty converter\<close>

text \<open>
  \<^verbatim>\<open>p = max(0, min(100, abs(p)))\<close>, \<^verbatim>\<open>return min(round(p * 655.35), 65535)\<close>, on a machine
  whose floats have \<open>bits\<close> significant bits.
\<close>

definition percent_to_duty :: "nat \<Rightarrow> rat \<Rightarrow> int" where
  "percent_to_duty bits p0 =
     (let p = max 0 (min 100 \<bar>p0\<bar>)
      in min (py_round (float_round bits (p * float_round bits (13107 / 20)))) 65535)"

text \<open>
  The converter as the specification words it: absolute value, clamp to \<open>[0, 100]\<close>, times
  655.35 as an exact number, nearest integer, at most 65535.
\<close>

definition percent_to_duty_spec :: "rat \<Rightarrow> int" where
  "percent_to_duty_spec p0 =
     min (round_half_even (max 0 (min 100 \<bar>p0\<bar>) * (13107 / 20))) 65535"

section \<open>Driver state\<close>

text \<open>
  What the driver does to the outside world is kept as a trace, in order: a level written to
  IN1, IN2 or the standby pin, a duty written to the PWM, a call of the observer
  \<open>status_func\<close>, a sleep of either kind.
\<close>

datatype event =
    P1_value int
  | P2_value int
  | Pwm_duty_u16 int
  | Stby_value int
  | Status_func rat
  | Sleep_ms int
  | Async_sleep_ms int

text \<open>
  The fields of a \<open>TB6612FNG\<close> object: the last level written to each pin, the last duty,
  the standby pin (\<open>None\<close> when the object has no attribute \<open>stby\<close>), the stored speed.
  With them goes \<open>float_bits\<close>, the number of significant bits of a float on the machine the
  object lives on; no method changes it.
\<close>

record driver =
  p1 :: int
  p2 :: int
  pwm :: int
  stby :: "int option"
  speed :: rat
  trace :: "event list"
  float_bits :: nat

datatype error =
    ValueError string
  | TypeError
  | AttributeError
  | KeyboardInterrupt
  | CancelledError

text \<open>
  A call either raises (\<open>Inl\<close>) or returns (\<open>Inr\<close>); either way the driver is left in some
  state, which is part of the result.
\<close>

type_synonym 'a result = "(error \<times> driver) + ('a \<times> driver)"

definition and_then :: "'a result \<Rightarrow> ('a \<Rightarrow> driver \<Rightarrow> 'b result) \<Rightarrow> 'b result" where
  "and_then m f = (case m of Inl e \<Rightarrow> Inl e | Inr (x, s) \<Rightarrow> f x s)"

definition state_of :: "'a result \<Rightarrow> driver" where
  "state_of r = (case r of Inl (e, s) \<Rightarrow> s | Inr (x, s) \<Rightarrow> s)"

section \<open>Output driver\<close>

definition emit :: "event \<Rightarrow> driver \<Rightarrow> driver" where
  "emit ev s = s\<lparr>trace := trace s @ [ev]\<rparr>"

definition set_raw_values :: "int option \<Rightarrow> int option \<Rightarrow> int option \<Rightarrow> driver \<Rightarrow> driver" where
  "set_raw_values pin1 pin2 pwm_duty s =
     (let s1 = (case pin1 of None \<Rightarrow> s | Some v \<Rightarrow> emit (P1_value v) (s\<lparr>p1 := v\<rparr>));
          s2 = (case pin2 of None \<Rightarrow> s1 | Some v \<Rightarrow> emit (P2_value v) (s1\<lparr>p2 := v\<rparr>));
          s3 = (case pwm_duty of None \<Rightarrow> s2 | Some d \<Rightarrow> emit (Pwm_duty_u16 d) (s2\<lparr>pwm := d\<rparr>))
      in s3)"

definition brake :: "driver \<Rightarrow> driver" where
  "brake s = set_raw_values (Some 1) (Some 1) (Some 0) s"

definition coast :: "driver \<Rightarrow> driver" where
  "coast s = set_raw_values (Some 0) (Some 0) (Some 0) s"

definition set_forward :: "driver \<Rightarrow> driver" where
  "set_forward s = set_raw_values (Some 1) (Some 0) None s"

definition set_reverse :: "driver \<Rightarrow> driver" where
  "set_reverse s = set_raw_values (Some 0) (Some 1) None s"

section \<open>Motor state\<close>

text \<open>
  \<^verbatim>\<open>getattr(self, f'set_{direction}', None)\<close> finds whatever attribute of the object has that
  name. The attributes whose name starts with \<open>set_\<close> are the four methods below.
\<close>

datatype set_method = Set_raw_values | Set_forward | Set_reverse | Set_motor

definition getattr_set :: "string \<Rightarrow> set_method option" where
  "getattr_set direction =
     (let name = ''set_'' @ direction
      in if name = ''set_raw_values'' then Some Set_raw_values
         else if name = ''set_forward'' then Some Set_forward
         else if name = ''set_reverse'' then Some Set_reverse
         else if name = ''set_motor'' then Some Set_motor
         else None)"

text \<open>
  \<^verbatim>\<open>method()\<close>: the bound method called with no argument. \<open>set_raw_values\<close> has a default for
  each parameter; \<open>set_motor\<close> has two required parameters, so the call raises \<open>TypeError\<close>.
\<close>

definition call_method :: "set_method \<Rightarrow> driver \<Rightarrow> unit result" where
  "call_method m s =
     (case m of
        Set_raw_values \<Rightarrow> Inr ((), set_raw_values None None None s)
      | Set_forward \<Rightarrow> Inr ((), set_forward s)
      | Set_reverse \<Rightarrow> Inr ((), set_reverse s)
      | Set_motor \<Rightarrow> Inl (TypeError, s))"

definition set_motor :: "string \<Rightarrow> rat \<Rightarrow> driver \<Rightarrow> unit result" where
  "set_motor direction speed_arg s =
     (case getattr_set direction of
        None \<Rightarrow> Inl (ValueError (''Invalid direction: '' @ direction), s)
      | Some m \<Rightarrow>
          and_then (call_method m s) (\<lambda>_ s1.
            let duty = percent_to_duty (float_bits s1) speed_arg
            in Inr ((), set_raw_values None None (Some duty) s1)))"

text \<open>\<open>drive(speed=None, auto_brake=True)\<close>; the first argument is \<open>None\<close> when it is omitted.\<close>

definition drive :: "rat option \<Rightarrow> bool \<Rightarrow> driver \<Rightarrow> rat result" where
  "drive speed_arg auto_brake s =
     (case speed_arg of
        None \<Rightarrow> Inr (speed s, s)
      | Some x \<Rightarrow>
          (let p = max (- 100) (min 100 x);
               s1 = s\<lparr>speed := p\<rparr>
           in if p \<noteq> 0 then
                and_then (set_motor (if p < 0 then ''reverse'' else ''forward'') \<bar>p\<bar> s1)
                  (\<lambda>_ s2. Inr (speed s2, s2))
              else
                (let s2 = (if auto_brake then brake s1 else coast s1)
                 in Inr (speed s2, s2))))"

section \<open>Standby pin and construction\<close>

definition on :: "driver \<Rightarrow> unit result" where
  "on s =
     (case stby s of
        None \<Rightarrow> Inl (AttributeError, s)
      | Some _ \<Rightarrow> Inr ((), emit (Stby_value 1) (s\<lparr>stby := Some 1\<rparr>)))"

definition off :: "bool \<Rightarrow> driver \<Rightarrow> unit result" where
  "off auto_brake s =
     (let s1 = (if auto_brake then brake s else coast s)
      in case stby s1 of
           None \<Rightarrow> Inl (AttributeError, s1)
         | Some _ \<Rightarrow> Inr ((), emit (Stby_value 0) (s1\<lparr>stby := Some 0\<rparr>)))"

text \<open>
  \<open>__init__(pin_1, pin_2, pwm_pin, stby_pin=None, pwm_freq=20_000)\<close>. The pin numbers and the
  frequency only choose the hardware; of the arguments the model keeps whether a standby pin
  is given. The first argument of the model, \<open>bits\<close>, is the width of a float on the
  machine. A fresh pin is taken at level 0 and the fresh PWM at duty 0; each is written
  before the constructor returns.
\<close>

definition fresh :: "nat \<Rightarrow> driver" where
  "fresh bits =
     \<lparr>p1 = 0, p2 = 0, pwm = 0, stby = None, speed = 0, trace = [], float_bits = bits\<rparr>"

definition init :: "nat \<Rightarrow> nat option \<Rightarrow> unit result" where
  "init bits stby_pin =
     and_then
       (case stby_pin of
          None \<Rightarrow> Inr ((), fresh bits)
        | Some _ \<Rightarrow> on ((fresh bits)\<lparr>stby := Some 0\<rparr>))
       (\<lambda>_ s. Inr ((), brake (s\<lparr>speed := 0\<rparr>)))"

section \<open>Ramp engine\<close>

text \<open>
  One resumption of the generator \<open>drive_ramp(target_speed, status_func)\<close>: it runs to the
  next \<open>yield\<close> (\<open>Some\<close> of the yielded value) or to its end (\<open>None\<close>). Of \<open>status_func\<close> the
  model keeps whether one is given; its call is an event of the trace.
\<close>

definition call_status :: "bool \<Rightarrow> driver \<Rightarrow> unit result" where
  "call_status status_func s =
     (if status_func then
        and_then (drive None True s) (\<lambda>v s1. Inr ((), emit (Status_func v) s1))
      else Inr ((), s))"

definition drive_ramp_next :: "rat \<Rightarrow> bool \<Rightarrow> driver \<Rightarrow> rat option result" where
  "drive_ramp_next target_speed status_func s =
     and_then (drive None True s) (\<lambda>c0 s.
       if c0 \<noteq> target_speed then
         and_then (drive None True s) (\<lambda>c1 s.
           let change = (if c1 > target_speed then - 1 else 1)
           in and_then (call_status status_func s) (\<lambda>_ s.
                and_then (drive None True s) (\<lambda>c2 s.
                  and_then (drive (Some (c2 + change)) True s) (\<lambda>v s.
                    Inr (Some v, s)))))
       else
         and_then (call_status status_func s) (\<lambda>_ s. Inr (None, s)))"

text \<open>
  The generator run to its end, as \<^verbatim>\<open>list(self.drive_ramp(target_speed, status_func))\<close> does:
  the values it yields, after those of \<open>ys\<close>. The loop need not end; then the value is \<open>None\<close>.
\<close>

partial_function (option) drive_ramp ::
  "rat \<Rightarrow> bool \<Rightarrow> rat list \<Rightarrow> driver \<Rightarrow> (rat list) result option" where
  "drive_ramp target_speed status_func ys s =
     (case drive_ramp_next target_speed status_func s of
        Inl e \<Rightarrow> Some (Inl e)
      | Inr (None, s1) \<Rightarrow> Some (Inr (ys, s1))
      | Inr (Some v, s1) \<Rightarrow> drive_ramp target_speed status_func (ys @ [v]) s1)"

text \<open>
  The loop \<^verbatim>\<open>for _ in self.drive_ramp(target_speed, status_func): sleep(change_speed)\<close> of both
  wrappers; \<open>sleep\<close> is the event of the sleep. An exception may come from outside while the
  loop sleeps: \<open>intr = Some (k, e)\<close> says that \<open>e\<close> is raised at the sleep that follows step
  \<open>k + 1\<close>, \<open>intr = None\<close> that none is raised. In \<open>safe_drive\<close> that is the
  \<open>KeyboardInterrupt\<close> of Ctrl-C during \<open>time.sleep_ms\<close>. In \<open>safe_drive_async\<close> the sleep is
  \<^verbatim>\<open>await asyncio.sleep_ms(change_speed)\<close>, where the cancellation of the task arrives as
  \<open>CancelledError\<close>.
\<close>

partial_function (option) ramp_loop ::
  "(int \<Rightarrow> event) \<Rightarrow> (nat \<times> error) option \<Rightarrow> rat \<Rightarrow> int \<Rightarrow> bool \<Rightarrow> driver \<Rightarrow>
   unit result option" where
  "ramp_loop sleep intr target_speed change_speed status_func s =
     (case drive_ramp_next target_speed status_func s of
        Inl e \<Rightarrow> Some (Inl e)
      | Inr (None, s1) \<Rightarrow> Some (Inr ((), s1))
      | Inr (Some v, s1) \<Rightarrow>
          (let s2 = emit (sleep change_speed) s1
           in case intr of
                None \<Rightarrow> ramp_loop sleep None target_speed change_speed status_func s2
              | Some (0, e) \<Rightarrow> Some (Inl (e, s2))
              | Some (Suc k, e) \<Rightarrow>
                  ramp_loop sleep (Some (k, e)) target_speed change_speed status_func s2))"

text \<open>\<^verbatim>\<open>try: ... except KeyboardInterrupt: self.brake()\<close>\<close>

definition except_KeyboardInterrupt :: "unit result \<Rightarrow> unit result" where
  "except_KeyboardInterrupt r =
     (case r of
        Inl (KeyboardInterrupt, s) \<Rightarrow> Inr ((), brake s)
      | Inl (e, s) \<Rightarrow> Inl (e, s)
      | Inr x \<Rightarrow> Inr x)"

definition safe_drive ::
  "(nat \<times> error) option \<Rightarrow> rat \<Rightarrow> int \<Rightarrow> bool \<Rightarrow> driver \<Rightarrow> unit result option" where
  "safe_drive intr target_speed change_speed status_func s =
     map_option except_KeyboardInterrupt
       (ramp_loop Sleep_ms intr target_speed change_speed status_func s)"

definition safe_drive_async ::
  "(nat \<times> error) option \<Rightarrow> rat \<Rightarrow> int \<Rightarrow> bool \<Rightarrow> driver \<Rightarrow> unit result option" where
  "safe_drive_async intr target_speed change_speed status_func s =
     map_option except_KeyboardInterrupt
       (ramp_loop Async_sleep_ms intr target_speed change_speed status_func s)"

section \<open>Notions used in the statements\<close>

text \<open>Writing the duty alone, as \<^verbatim>\<open>self.set_raw_values(pwm_duty=duty)\<close> does.\<close>

definition set_duty :: "int \<Rightarrow> driver \<Rightarrow> driver" where
  "set_duty d s = set_raw_values None None (Some d) s"

text \<open>The clamp of \<open>drive\<close>: \<^verbatim>\<open>max(-100, min(100, speed))\<close>.\<close>

definition clamp_speed :: "rat \<Rightarrow> rat" where
  "clamp_speed x = max (- 100) (min 100 x)"

text \<open>The state in which \<open>drive\<close> leaves the driver once it has clamped its argument to \<open>p\<close>.\<close>

definition drive_to :: "bool \<Rightarrow> rat \<Rightarrow> driver \<Rightarrow> driver" where
  "drive_to auto_brake p s =
     (if p < 0 then
        set_duty (percent_to_duty (float_bits s) \<bar>p\<bar>) (set_reverse (s\<lparr>speed := p\<rparr>))
      else if 0 < p then
        set_duty (percent_to_duty (float_bits s) \<bar>p\<bar>) (set_forward (s\<lparr>speed := p\<rparr>))
      else if auto_brake then brake (s\<lparr>speed := p\<rparr>) else coast (s\<lparr>speed := p\<rparr>))"

text \<open>The observer called, when there is one, with the stored speed.\<close>

definition notify :: "bool \<Rightarrow> driver \<Rightarrow> driver" where
  "notify status_func s = (if status_func then emit (Status_func (speed s)) s else s)"

text \<open>The speed a ramp step asks \<open>drive\<close> for, clamped: one unit from \<open>c\<close> toward the target.\<close>

definition ramp_target :: "rat \<Rightarrow> rat \<Rightarrow> rat" where
  "ramp_target target c = clamp_speed (c + (if c > target then - 1 else 1))"

text \<open>
  The converter on an argument \<open>q\<close> already clamped, with \<open>c\<close> the float that the literal
  \<open>655.35\<close> denotes.
\<close>

definition duty_of :: "nat \<Rightarrow> rat \<Rightarrow> rat \<Rightarrow> int" where
  "duty_of bits c q = min (py_round (float_round bits (q * c))) 65535"

text \<open>
  At the integer \<open>k\<close> the computation in 53-bit floats gives what exact arithmetic gives.
\<close>

definition agree :: "int \<Rightarrow> bool" where
  "agree k =
     (duty_of 53 (5764519562104013 / 8796093022208) (of_int k) =
        min (round_half_even (of_int k * (13107 / 20))) 65535)"



primrec all_upto :: "(int \<Rightarrow> bool) \<Rightarrow> nat \<Rightarrow> bool" where
  "all_upto P 0 = P 0"
| "all_upto P (Suc n) = (P (int (Suc n)) \<and> all_upto P n)"

text \<open>The state after the generator has been resumed \<open>n\<close> times.\<close>

primrec after_steps :: "nat \<Rightarrow> rat \<Rightarrow> bool \<Rightarrow> driver \<Rightarrow> driver" where
  "after_steps 0 target_speed status_func s = s"
| "after_steps (Suc n) target_speed status_func s =
     after_steps n target_speed status_func (state_of (drive_ramp_next target_speed status_func s))"

text \<open>
  An ordinary step to the speed \<open>p\<close>: what \<open>drive\<close> does for a speed other than 0, that is
  \<open>set_motor\<close> with the direction of the sign and the duty of the magnitude.
\<close>

definition ordinary_step :: "rat \<Rightarrow> driver \<Rightarrow> driver" where
  "ordinary_step p s =
     set_duty (percent_to_duty (float_bits s) \<bar>p\<bar>)
       (if p < 0 then set_reverse (s\<lparr>speed := p\<rparr>) else set_forward (s\<lparr>speed := p\<rparr>))"

text \<open>
  The states a driver object can be in: that of a new object, and any state a call of a
  method leaves behind, whether the call returns or raises.
\<close>

inductive reachable :: "driver \<Rightarrow> bool" where
  r_init: "reachable (state_of (init bits stby_pin))"
| r_set_raw_values: "reachable s \<Longrightarrow> reachable (set_raw_values pin1 pin2 pwm_duty s)"
| r_brake: "reachable s \<Longrightarrow> reachable (brake s)"
| r_coast: "reachable s \<Longrightarrow> reachable (coast s)"
| r_set_forward: "reachable s \<Longrightarrow> reachable (set_forward s)"
| r_set_reverse: "reachable s \<Longrightarrow> reachable (set_reverse s)"
| r_set_motor: "reachable s \<Longrightarrow> reachable (state_of (set_motor direction x s))"
| r_drive: "reachable s \<Longrightarrow> reachable (state_of (drive speed_arg auto_brake s))"
| r_drive_ramp_next: "reachable s \<Longrightarrow> reachable (state_of (drive_ramp_next target status_func s))"
| r_drive_ramp:
    "reachable s \<Longrightarrow> drive_ramp target status_func ys s = Some r \<Longrightarrow> reachable (state_of r)"
| r_safe_drive:
    "reachable s \<Longrightarrow> safe_drive intr target change_speed status_func s = Some r \<Longrightarrow>
     reachable (state_of r)"
| r_safe_drive_async:
    "reachable s \<Longrightarrow> safe_drive_async intr target change_speed status_func s = Some r \<Longrightarrow>
     reachable (state_of r)"
| r_on: "reachable s \<Longrightarrow> reachable (state_of (on s))"
| r_off: "reachable s \<Longrightarrow> reachable (state_of (off auto_brake s))"

definition speed_ok :: "driver \<Rightarrow> bool" where
  "speed_ok s = (- 100 \<le> speed s \<and> speed s \<le> 100)"


text \<open>
  The arithmetic progression of unit steps from \<open>c\<close> toward \<open>t\<close>: \<open>c + 1, ..., t\<close> when
  \<open>c \<le> t\<close>, and \<open>c - 1, ..., t\<close> otherwise.
\<close>

definition unit_steps :: "int \<Rightarrow> int \<Rightarrow> rat list" where
  "unit_steps c t =
     map (\<lambda>i. of_int (if c \<le> t then c + 1 + int i else c - 1 - int i)) [0..<nat \<bar>t - c\<bar>]"

section \<open>Basic facts\<close>

lemma and_then_Inr [simp]: "and_then (Inr (x, s)) f = f x s"
  by (simp add: and_then_def)

lemma and_then_Inl [simp]: "and_then (Inl e) f = Inl e"
  by (simp add: and_then_def)

lemma drive_None [simp]: "drive None auto_brake s = Inr (speed s, s)"
  by (simp add: drive_def)

lemma set_raw_values_fields [simp]:
  "speed (set_raw_values a b c s) = speed s"
  "stby (set_raw_values a b c s) = stby s"
  "float_bits (set_raw_values a b c s) = float_bits s"
  by (simp_all add: set_raw_values_def emit_def split: option.splits)

lemma set_raw_values_none [simp]: "set_raw_values None None None s = s"
  by (simp add: set_raw_values_def)

lemma emit_fields [simp]:
  "speed (emit ev s) = speed s" "stby (emit ev s) = stby s"
  "float_bits (emit ev s) = float_bits s"
  "p1 (emit ev s) = p1 s" "p2 (emit ev s) = p2 s" "pwm (emit ev s) = pwm s"
  "trace (emit ev s) = trace s @ [ev]"
  by (simp_all add: emit_def)

lemma brake_fields [simp]:
  "speed (brake s) = speed s" "stby (brake s) = stby s"
  "float_bits (brake s) = float_bits s"
  "p1 (brake s) = 1" "p2 (brake s) = 1" "pwm (brake s) = 0"
  "trace (brake s) = trace s @ [P1_value 1, P2_value 1, Pwm_duty_u16 0]"
  by (simp_all add: brake_def set_raw_values_def emit_def)

lemma coast_fields [simp]:
  "speed (coast s) = speed s" "stby (coast s) = stby s"
  "float_bits (coast s) = float_bits s"
  "p1 (coast s) = 0" "p2 (coast s) = 0" "pwm (coast s) = 0"
  "trace (coast s) = trace s @ [P1_value 0, P2_value 0, Pwm_duty_u16 0]"
  by (simp_all add: coast_def set_raw_values_def emit_def)

lemma set_forward_fields [simp]:
  "speed (set_forward s) = speed s" "stby (set_forward s) = stby s"
  "float_bits (set_forward s) = float_bits s"
  "p1 (set_forward s) = 1" "p2 (set_forward s) = 0" "pwm (set_forward s) = pwm s"
  "trace (set_forward s) = trace s @ [P1_value 1, P2_value 0]"
  by (simp_all add: set_forward_def set_raw_values_def emit_def)

lemma set_reverse_fields [simp]:
  "speed (set_reverse s) = speed s" "stby (set_reverse s) = stby s"
  "float_bits (set_reverse s) = float_bits s"
  "p1 (set_reverse s) = 0" "p2 (set_reverse s) = 1" "pwm (set_reverse s) = pwm s"
  "trace (set_reverse s) = trace s @ [P1_value 0, P2_value 1]"
  by (simp_all add: set_reverse_def set_raw_values_def emit_def)

lemma set_duty_fields [simp]:
  "speed (set_duty d s) = speed s" "stby (set_duty d s) = stby s"
  "float_bits (set_duty d s) = float_bits s"
  "p1 (set_duty d s) = p1 s" "p2 (set_duty d s) = p2 s" "pwm (set_duty d s) = d"
  "trace (set_duty d s) = trace s @ [Pwm_duty_u16 d]"
  by (simp_all add: set_duty_def set_raw_values_def emit_def)

lemma set_motor_forward:
  "set_motor ''forward'' v s =
     Inr ((), set_duty (percent_to_duty (float_bits s) v) (set_forward s))"
  by (simp add: set_motor_def getattr_set_def call_method_def set_duty_def)

lemma set_motor_reverse:
  "set_motor ''reverse'' v s =
     Inr ((), set_duty (percent_to_duty (float_bits s) v) (set_reverse s))"
  by (simp add: set_motor_def getattr_set_def call_method_def set_duty_def)

lemma drive_Some:
  "drive (Some x) auto_brake s = Inr (clamp_speed x, drive_to auto_brake (clamp_speed x) s)"
proof -
  have step: "(if p \<noteq> 0 then
             and_then (set_motor (if p < 0 then ''reverse'' else ''forward'') \<bar>p\<bar> (s\<lparr>speed := p\<rparr>))
               (\<lambda>_ s2. Inr (speed s2, s2))
           else Inr (speed (if auto_brake then brake (s\<lparr>speed := p\<rparr>) else coast (s\<lparr>speed := p\<rparr>)),
                     if auto_brake then brake (s\<lparr>speed := p\<rparr>) else coast (s\<lparr>speed := p\<rparr>)))
        = Inr (p, drive_to auto_brake p s)" for p
    by (cases "p < 0"; cases "p = 0")
       (simp_all add: drive_to_def set_motor_forward set_motor_reverse)
  show ?thesis
    unfolding drive_def option.case Let_def clamp_speed_def by (rule step)
qed

lemma drive_to_fields [simp]:
  "speed (drive_to ab p s) = p" "stby (drive_to ab p s) = stby s"
  "float_bits (drive_to ab p s) = float_bits s"
  by (simp_all add: drive_to_def)

lemma clamp_speed_bounds: "- 100 \<le> clamp_speed x" "clamp_speed x \<le> 100"
  by (simp_all add: clamp_speed_def)

lemma clamp_speed_id: "- 100 \<le> x \<Longrightarrow> x \<le> 100 \<Longrightarrow> clamp_speed x = x"
  by (simp add: clamp_speed_def)

lemma call_status_eq: "call_status status_func s = Inr ((), notify status_func s)"
  by (simp add: call_status_def notify_def)

lemma notify_fields [simp]:
  "speed (notify st s) = speed s" "stby (notify st s) = stby s"
  "float_bits (notify st s) = float_bits s"
  by (simp_all add: notify_def)

lemma drive_ramp_next_stop:
  "speed s = target \<Longrightarrow> drive_ramp_next target st s = Inr (None, notify st s)"
  by (simp add: drive_ramp_next_def call_status_eq)

lemma drive_ramp_next_step:
  "speed s \<noteq> target \<Longrightarrow>
   drive_ramp_next target st s =
     Inr (Some (ramp_target target (speed s)),
          drive_to True (ramp_target target (speed s)) (notify st s))"
  by (simp add: drive_ramp_next_def call_status_eq drive_Some ramp_target_def)


lemma init_None: "init bits None = Inr ((), brake (fresh bits))"
  by (simp add: init_def fresh_def)

lemma init_Some:
  "init bits (Some n) = Inr ((), brake (emit (Stby_value 1) ((fresh bits)\<lparr>stby := Some 1\<rparr>)))"
  by (simp add: init_def fresh_def on_def emit_def)

section \<open>Reading the speed\<close>

text \<open>
  C9. \<open>drive\<close> called without a speed returns the stored speed and leaves the driver as it
  was: the stored speed, the pin levels, the duty and the trace of hardware writes are all
  unchanged, whatever the state and whatever \<open>auto_brake\<close>.
\<close>

theorem drive_omitted_changes_nothing:
  "drive None auto_brake s = Inr (speed s, s)"
  by (simp add: drive_def)

section \<open>The standby pin\<close>

text \<open>
  C10. On a driver without a standby pin (\<open>stby_pin = None\<close>, so no attribute \<open>stby\<close>),
  \<open>on\<close> raises \<open>AttributeError\<close> and changes nothing; \<open>off\<close> first brakes or coasts, as
  \<open>auto_brake\<close> says, and raises \<open>AttributeError\<close> only then, so the three hardware writes
  have happened when it fails.
\<close>

theorem on_off_without_standby_pin:
  "stby s = None \<Longrightarrow>
     on s = Inl (AttributeError, s) \<and>
     off auto_brake s = Inl (AttributeError, if auto_brake then brake s else coast s) \<and>
     trace (state_of (off auto_brake s)) =
       trace s @ (if auto_brake then [P1_value 1, P2_value 1, Pwm_duty_u16 0]
                  else [P1_value 0, P2_value 0, Pwm_duty_u16 0])"
  by (simp add: on_def off_def state_of_def)

theorem on_off_without_standby_pin_witness:
  "stby (state_of (init 53 None)) = None \<and>
   on (state_of (init 53 None)) = Inl (AttributeError, state_of (init 53 None)) \<and>
   off True (state_of (init 53 None)) = Inl (AttributeError, brake (state_of (init 53 None))) \<and>
   off False (state_of (init 53 None)) = Inl (AttributeError, coast (state_of (init 53 None)))"
proof -
  have h: "stby (state_of (init 53 None)) = None"
    by (simp add: init_None state_of_def fresh_def)
  show ?thesis
    using h on_off_without_standby_pin [OF h, of True] on_off_without_standby_pin [OF h, of False]
    by simp
qed

section \<open>Evaluating the float model\<close>

lemma bit_length_0 [simp]: "bit_length 0 = 0"
  by (simp add: bit_length.simps)

lemma bit_length_1 [simp]: "bit_length (Suc 0) = Suc 0"
  by (simp add: bit_length.simps)

lemma bit_length_numeral [simp]:
  "bit_length (numeral k) = Suc (bit_length (numeral k div 2))"
  by (subst bit_length.simps) simp

lemma floor_rat_numeral [simp]: "\<lfloor>numeral a / numeral b :: rat\<rfloor> = numeral a div numeral b"
  by (metis floor_divide_of_int_eq of_int_numeral)

lemmas float_eval =
  float_round_def float_exponent_def pow2_def round_half_even_def py_round_def Let_def

lemma literal_53: "float_round 53 (13107 / 20) = 5764519562104013 / 8796093022208"
  by (simp add: float_eval)

lemma literal_24: "float_round 24 (13107 / 20) = 5368627 / 8192"
  by (simp add: float_eval)

lemma percent_to_duty_53:
  "percent_to_duty 53 p = duty_of 53 (5764519562104013 / 8796093022208) (max 0 (min 100 \<bar>p\<bar>))"
  unfolding percent_to_duty_def duty_of_def Let_def literal_53 ..

lemma percent_to_duty_24:
  "percent_to_duty 24 p = duty_of 24 (5368627 / 8192) (max 0 (min 100 \<bar>p\<bar>))"
  unfolding percent_to_duty_def duty_of_def Let_def literal_24 ..

lemma duty_of_values_53:
  "duty_of 53 (5764519562104013 / 8796093022208) 0 = 0"
  "duty_of 53 (5764519562104013 / 8796093022208) 100 = 65535"
  "duty_of 53 (5764519562104013 / 8796093022208) 50 = 32768"
  "duty_of 53 (5764519562104013 / 8796093022208) (7476793155686427 / 576460752303423488) = 8"
  by (simp_all add: duty_of_def float_eval)

lemma duty_of_values_24:
  "duty_of 24 (5368627 / 8192) 0 = 0"
  "duty_of 24 (5368627 / 8192) 100 = 65535"
  "duty_of 24 (5368627 / 8192) 50 = 32767"
  by (simp_all add: duty_of_def float_eval)

lemma ptd_values_53:
  "percent_to_duty 53 0 = 0" "percent_to_duty 53 100 = 65535" "percent_to_duty 53 150 = 65535"
  "percent_to_duty 53 50 = 32768"
  "percent_to_duty 53 (7476793155686427 / 576460752303423488) = 8"
  by (simp_all add: percent_to_duty_53 duty_of_values_53)

lemma ptd_values_24:
  "percent_to_duty 24 0 = 0" "percent_to_duty 24 100 = 65535" "percent_to_duty 24 150 = 65535"
  "percent_to_duty 24 50 = 32767"
  by (simp_all add: percent_to_duty_24 duty_of_values_24)

lemma spec_value:
  "percent_to_duty_spec (7476793155686427 / 576460752303423488) = 9"
  by (simp add: percent_to_duty_spec_def round_half_even_def Let_def)

lemma all_upto_numeral:
  "all_upto P (numeral k) = (P (numeral k) \<and> all_upto P (pred_numeral k))"
proof -
  have "all_upto P (numeral k) = all_upto P (Suc (pred_numeral k))"
    by (simp only: numeral_eq_Suc)
  moreover have "int (Suc (pred_numeral k)) = numeral k"
    by (simp only: numeral_eq_Suc [symmetric] of_nat_numeral)
  ultimately show ?thesis
    by (simp only: all_upto.simps)
qed

lemma all_uptoD: "all_upto P n \<Longrightarrow> 0 \<le> k \<Longrightarrow> k \<le> int n \<Longrightarrow> P k"
proof (induction n)
  case 0
  then show ?case by simp
next
  case (Suc n)
  show ?case
  proof (cases "k = int (Suc n)")
    case True
    with Suc.prems show ?thesis by simp
  next
    case False
    with Suc.prems have "k \<le> int n" by simp
    with Suc show ?thesis by simp
  qed
qed

lemma agree_all: "all_upto agree 100"
  by (simp add: all_upto_numeral agree_def duty_of_def float_eval)

lemma percent_to_duty_of_int:
  "percent_to_duty 53 (of_int k) = percent_to_duty_spec (of_int k)"
proof -
  define q where "q = max 0 (min 100 \<bar>k\<bar>)"
  have q: "max 0 (min 100 \<bar>of_int k :: rat\<bar>) = of_int q"
    by (simp add: q_def)
  have "0 \<le> q" "q \<le> int 100"
    by (simp_all add: q_def)
  with agree_all have "agree q"
    by (rule all_uptoD)
  then show ?thesis
    by (simp add: percent_to_duty_53 percent_to_duty_spec_def q agree_def)
qed

section \<open>The error of the float product\<close>

lemma bit_length_upper: "n < 2 ^ bit_length n"
proof (induction n rule: bit_length.induct)
  case (1 n)
  show ?case
  proof (cases "n = 0")
    case True
    then show ?thesis by simp
  next
    case False
    with 1 have "n div 2 < 2 ^ bit_length (n div 2)" by simp
    then have "n < 2 * 2 ^ bit_length (n div 2)" by linarith
    moreover have "bit_length n = Suc (bit_length (n div 2))"
      using False by (subst bit_length.simps) simp
    ultimately show ?thesis by simp
  qed
qed

lemma bit_length_lower: "0 < n \<Longrightarrow> 2 ^ (bit_length n - 1) \<le> n"
proof (induction n rule: bit_length.induct)
  case (1 n)
  from 1(2) have eq: "bit_length n = Suc (bit_length (n div 2))"
    by (subst bit_length.simps) simp
  show ?case
  proof (cases "n div 2 = 0")
    case True
    with eq 1(2) show ?thesis by simp
  next
    case False
    with 1 have ih: "2 ^ (bit_length (n div 2) - 1) \<le> n div 2" by simp
    from False have "0 < bit_length (n div 2)"
      by (subst bit_length.simps) simp
    then have "bit_length (n div 2) = Suc (bit_length (n div 2) - 1)"
      by simp
    then have "(2::nat) ^ bit_length (n div 2) = 2 * 2 ^ (bit_length (n div 2) - 1)"
      by (metis power_Suc)
    with ih have "(2::nat) ^ bit_length (n div 2) \<le> n" by linarith
    with eq show ?thesis by simp
  qed
qed

lemma pow2_power_int: "pow2 e = 2 powi e"
  by (simp add: pow2_def power_int_def power_inverse [symmetric] inverse_eq_divide power_one_over)

lemma pow2_pos: "0 < pow2 e"
  by (simp add: pow2_def)

lemma float_exponent_lower:
  assumes "0 < x"
  shows "pow2 (float_exponent x) \<le> x"
proof (cases "1 \<le> x")
  case True
  define n where "n = nat \<lfloor>x\<rfloor>"
  from True have n: "0 < n" by (simp add: n_def)
  then have "1 \<le> bit_length n" by (subst bit_length.simps) simp
  then have e: "float_exponent x = int (bit_length n - 1)"
    using True by (simp add: float_exponent_def n_def)
  have "(2::rat) ^ (bit_length n - 1) \<le> of_nat n"
    using bit_length_lower [OF n] by (metis of_nat_le_iff of_nat_numeral of_nat_power)
  also have "(of_nat n :: rat) \<le> x"
    using True by (simp add: n_def)
  finally have "(2::rat) ^ (bit_length n - 1) \<le> x" .
  moreover have "pow2 (float_exponent x) = 2 ^ (bit_length n - 1)"
    by (simp only: e pow2_def nat_int of_nat_0_le_iff if_True)
  ultimately show ?thesis
    by (simp only:)
next
  case False
  define m where "m = \<lceil>1 / x\<rceil>"
  define k where "k = nat (m - 1)"
  from False assms have big: "1 < 1 / x" by simp
  then have m: "2 \<le> m" unfolding m_def by linarith
  then have k: "0 < k" and ik: "int k = m - 1"
    by (simp_all add: k_def)
  from ik have "(of_int (int k) :: rat) + 1 = of_int m"
    by simp
  then have kk: "of_nat k + 1 = (of_int m :: rat)"
    by simp
  from k have bl: "1 \<le> bit_length k" by (subst bit_length.simps) simp
  have e: "float_exponent x = - int (bit_length k)"
    using False by (simp add: float_exponent_def k_def m_def)
  have "1 / x \<le> of_int m" unfolding m_def by (rule le_of_int_ceiling)
  also have "\<dots> = of_nat (k + 1)" using kk by simp
  also have "\<dots> \<le> of_nat (2 ^ bit_length k)"
    using bit_length_upper [of k] by (intro of_nat_mono) simp
  finally have "1 / x \<le> 2 ^ bit_length k" by simp
  then have "1 / 2 ^ bit_length k \<le> x"
    using assms by (simp add: field_simps)
  then show ?thesis
    using bl by (simp add: e pow2_def)
qed

lemma round_half_even_close: "\<bar>of_int (round_half_even z) - z\<bar> \<le> 1 / 2"
proof -
  have "of_int \<lfloor>z\<rfloor> \<le> z" "z < of_int \<lfloor>z\<rfloor> + 1"
    by linarith+
  then show ?thesis
    by (auto simp: round_half_even_def Let_def)
qed

lemma float_round_close: "\<bar>float_round bits x - x\<bar> \<le> \<bar>x\<bar> / 2 ^ bits"
proof (cases "x = 0")
  case True
  then show ?thesis by (simp add: float_round_def)
next
  case False
  define e where "e = float_exponent \<bar>x\<bar>"
  define u where "u = pow2 (e - (int bits - 1))"
  define r where "r = round_half_even (\<bar>x\<bar> / u)"
  have u: "0 < u" by (simp add: u_def pow2_pos)
  have fl: "float_round bits x = sgn x * of_int r * u"
    using False by (simp add: float_round_def Let_def e_def u_def r_def)
  have "\<bar>float_round bits x - x\<bar> = \<bar>of_int r * u - \<bar>x\<bar>\<bar>"
  proof (cases "0 < x")
    case True
    then show ?thesis by (simp add: fl)
  next
    case neg: False
    with False have "x < 0" by simp
    then show ?thesis
      using abs_minus_cancel [of "of_int r * u + x"] by (simp add: fl)
  qed
  also have "\<dots> = \<bar>of_int r - \<bar>x\<bar> / u\<bar> * u"
    using u by (simp add: abs_mult [symmetric] field_simps)
  also have "\<dots> \<le> (1 / 2) * u"
    using u round_half_even_close [of "\<bar>x\<bar> / u"] by (intro mult_right_mono) (simp_all add: r_def)
  finally have close: "\<bar>float_round bits x - x\<bar> \<le> u / 2" by simp
  have "e - (int bits - 1) = e + 1 + (- int bits)"
    by simp
  then have "u = 2 powi (e + 1 + (- int bits))"
    by (simp only: u_def pow2_power_int)
  also have "\<dots> = 2 powi (e + 1) * 2 powi (- int bits)"
    by (rule power_int_add) simp
  also have "(2::rat) powi (e + 1) = 2 powi e * 2 powi 1"
    by (rule power_int_add) simp
  finally have "u = 2 powi e * 2 / 2 ^ bits"
    by (simp add: power_int_minus inverse_eq_divide)
  then have "u / 2 = pow2 e / 2 ^ bits"
    by (simp add: pow2_power_int)
  moreover have "pow2 e \<le> \<bar>x\<bar>"
    unfolding e_def using False by (intro float_exponent_lower) simp
  ultimately have "u / 2 \<le> \<bar>x\<bar> / 2 ^ bits"
    by (simp add: divide_right_mono)
  with close show ?thesis by linarith
qed

lemma product_close:
  assumes "0 \<le> q" "q \<le> 100"
  shows "\<bar>float_round bits (q * float_round bits (13107 / 20)) - q * (13107 / 20)\<bar>
           \<le> 196605 / 2 ^ bits"
proof -
  define d :: rat where "d = 1 / 2 ^ bits"
  define c' where "c' = float_round bits (13107 / 20)"
  have d: "0 < d" "d \<le> 1"
    by (simp_all add: d_def divide_le_eq_1)
  have "\<bar>c' - 13107 / 20\<bar> \<le> (13107 / 20) * d"
    using float_round_close [of bits "13107 / 20"] by (simp add: c'_def d_def)
  then have "q * \<bar>c' - 13107 / 20\<bar> \<le> 100 * ((13107 / 20) * d)"
    using assms by (intro mult_mono) simp_all
  moreover have "\<bar>q * c' - q * (13107 / 20)\<bar> = q * \<bar>c' - 13107 / 20\<bar>"
  proof -
    have "\<bar>q * c' - q * (13107 / 20)\<bar> = \<bar>q * (c' - 13107 / 20)\<bar>"
      by (simp only: right_diff_distrib)
    also have "\<dots> = \<bar>q\<bar> * \<bar>c' - 13107 / 20\<bar>"
      by (rule abs_mult)
    finally show ?thesis
      using assms(1) by (simp only: abs_of_nonneg)
  qed
  ultimately have a: "\<bar>q * c' - q * (13107 / 20)\<bar> \<le> 65535 * d"
    by simp
  have "q * (13107 / 20) \<le> 100 * (13107 / 20)"
    using assms by (intro mult_right_mono) simp_all
  then have "\<bar>q * (13107 / 20)\<bar> \<le> 65535"
    using assms by simp
  moreover have "65535 * d \<le> 65535"
    using d by simp
  ultimately have "\<bar>q * c'\<bar> \<le> 131070"
    using a by linarith
  then have "\<bar>q * c'\<bar> * d \<le> 131070 * d"
    using d by (intro mult_right_mono) simp_all
  moreover have "\<bar>float_round bits (q * c') - q * c'\<bar> \<le> \<bar>q * c'\<bar> * d"
    using float_round_close [of bits "q * c'"] by (simp add: d_def)
  ultimately have b: "\<bar>float_round bits (q * c') - q * c'\<bar> \<le> 131070 * d"
    by linarith
  from a b have "\<bar>float_round bits (q * c') - q * (13107 / 20)\<bar> \<le> 196605 * d"
    by linarith
  then show ?thesis
    by (simp add: c'_def d_def)
qed

lemma percent_to_duty_close:
  "\<bar>of_int (percent_to_duty bits p) - max 0 (min 100 \<bar>p\<bar>) * (13107 / 20)\<bar>
     \<le> 1 / 2 + 196605 / 2 ^ bits"
proof -
  define q where "q = max 0 (min 100 \<bar>p\<bar>)"
  define y where "y = float_round bits (q * float_round bits (13107 / 20))"
  define r where "r = py_round y"
  have q: "0 \<le> q" "q \<le> 100"
    by (simp_all add: q_def)
  have x: "q * (13107 / 20) \<le> 65535"
    using mult_right_mono [OF q(2), of "13107 / 20"] by simp
  have ptd: "percent_to_duty bits p = min r 65535"
    by (simp add: percent_to_duty_def Let_def q_def y_def r_def)
  have "\<bar>of_int r - y\<bar> \<le> 1 / 2"
    unfolding r_def py_round_def by (rule round_half_even_close)
  moreover have "\<bar>y - q * (13107 / 20)\<bar> \<le> 196605 / 2 ^ bits"
    unfolding y_def using q by (rule product_close)
  ultimately have r: "\<bar>of_int r - q * (13107 / 20)\<bar> \<le> 1 / 2 + 196605 / 2 ^ bits"
    by linarith
  have "\<bar>of_int (min r 65535) - q * (13107 / 20)\<bar> \<le> \<bar>of_int r - q * (13107 / 20)\<bar>"
  proof (cases "r \<le> 65535")
    case True
    then show ?thesis by simp
  next
    case False
    then have "(65535 :: rat) \<le> of_int r"
      by (metis linorder_le_cases of_int_le_iff of_int_numeral)
    with False x show ?thesis by simp
  qed
  with r show ?thesis
    unfolding ptd q_def by linarith
qed

lemma percent_to_duty_unique:
  assumes "19 \<le> bits" and "max 0 (min 100 \<bar>p\<bar>) * (13107 / 20) = of_int n"
  shows "percent_to_duty bits p = n"
proof -
  have "(2::rat) ^ 19 \<le> 2 ^ bits"
    using assms(1) by (intro power_increasing) simp_all
  then have "196605 / (2::rat) ^ bits \<le> 196605 / 2 ^ 19"
    by (intro divide_left_mono) simp_all
  then have "\<bar>of_int (percent_to_duty bits p) - (of_int n :: rat)\<bar> < 1"
    using percent_to_duty_close [of bits p] assms(2) by simp
  then have "\<bar>(of_int (percent_to_duty bits p - n) :: rat)\<bar> < 1"
    by simp
  then have "\<bar>percent_to_duty bits p - n\<bar> < 1"
    by (metis of_int_abs of_int_less_1_iff)
  then show ?thesis by simp
qed

section \<open>The duty converter\<close>

text \<open>
  C6, as amended. \<open>percent_to_duty\<close> takes the absolute value, clamps it to \<open>[0, 100]\<close>,
  multiplies by 655.35 in floating point, rounds that product to the nearest integer and
  clamps to at most 65535. So the result is the exact product rounded to nearest up to the
  error of the float product: with floats of \<open>bits\<close> significant bits it differs from the
  exact product by at most \<open>1/2 + 196605 / 2 ^ bits\<close>. With floats of at least 19 bits
  \<open>percent_to_duty(0) = 0\<close>, \<open>percent_to_duty(100) = 65535\<close> and \<open>percent_to_duty(150) = 65535\<close>.
  With 53-bit floats the result on every integer percentage is the exact product rounded to
  nearest, a tie going to the even integer, and \<open>percent_to_duty(50) = 32768\<close>; with 24-bit
  floats \<open>percent_to_duty(50) = 32767\<close>.
\<close>

theorem percent_to_duty_nearest:
  "\<bar>of_int (percent_to_duty bits p) - max 0 (min 100 \<bar>p\<bar>) * (13107 / 20)\<bar>
     \<le> 1 / 2 + 196605 / 2 ^ bits \<and>
   percent_to_duty bits p \<le> 65535 \<and>
   (19 \<le> bits \<longrightarrow>
      percent_to_duty bits 0 = 0 \<and> percent_to_duty bits 100 = 65535 \<and>
      percent_to_duty bits 150 = 65535) \<and>
   percent_to_duty 53 (of_int k) = percent_to_duty_spec (of_int k) \<and>
   percent_to_duty 53 50 = 32768 \<and>
   percent_to_duty 24 50 = 32767"
proof -
  have "percent_to_duty bits p \<le> 65535"
    by (simp add: percent_to_duty_def Let_def)
  moreover have "percent_to_duty bits 0 = 0" "percent_to_duty bits 100 = 65535"
    "percent_to_duty bits 150 = 65535" if "19 \<le> bits"
    using that by (simp_all add: percent_to_duty_unique)
  ultimately show ?thesis
    using percent_to_duty_close [of bits p] percent_to_duty_of_int [of k]
    by (simp add: ptd_values_53 ptd_values_24)
qed

theorem percent_to_duty_nearest_witness:
  "(19::nat) \<le> 24 \<and>
   percent_to_duty 24 0 = 0 \<and> percent_to_duty 24 100 = 65535 \<and> percent_to_duty 24 150 = 65535 \<and>
   (19::nat) \<le> 53 \<and>
   percent_to_duty 53 0 = 0 \<and> percent_to_duty 53 100 = 65535 \<and> percent_to_duty 53 150 = 65535"
  using percent_to_duty_nearest [of 24 0 0] percent_to_duty_nearest [of 53 0 0]
  by simp

text \<open>
  C6, as stated, fails. The float \<open>7476793155686427 / 2 ^ 59\<close> times 655.35 is just above
  \<open>8.5\<close>, whose nearest integer is 9; the product in 53-bit floats is \<open>8.5\<close> itself, and the
  code returns 8. With 24-bit floats \<open>percent_to_duty(50)\<close> is 32767, not 32768.
\<close>

theorem percent_to_duty_counterexample:
  "percent_to_duty 53 (7476793155686427 / 576460752303423488) = 8 \<and>
   percent_to_duty_spec (7476793155686427 / 576460752303423488) = 9 \<and>
   percent_to_duty 24 50 = 32767"
  by (simp add: ptd_values_53 ptd_values_24 spec_value)

section \<open>The stored speed stays in range\<close>

lemma state_of_simps [simp]:
  "state_of (Inl (e, s)) = s" "state_of (Inr (x, s)) = s"
  by (simp_all add: state_of_def)

lemma speed_set_motor: "speed (state_of (set_motor d x s)) = speed s"
  by (simp add: set_motor_def call_method_def split: option.splits set_method.splits)

lemma speed_on: "speed (state_of (on s)) = speed s"
  by (simp add: on_def split: option.splits)

lemma speed_off: "speed (state_of (off ab s)) = speed s"
  by (simp add: off_def Let_def split: option.splits)

lemma speed_ok_drive: "speed_ok s \<Longrightarrow> speed_ok (state_of (drive x ab s))"
  by (cases x) (simp_all add: drive_Some speed_ok_def clamp_speed_bounds)

lemma speed_ok_next: "speed_ok s \<Longrightarrow> speed_ok (state_of (drive_ramp_next t st s))"
  by (cases "speed s = t")
     (simp_all add: drive_ramp_next_stop drive_ramp_next_step speed_ok_def ramp_target_def
        clamp_speed_bounds)

lemma next_cases:
  obtains (stop) "speed s = t" "drive_ramp_next t st s = Inr (None, notify st s)"
  | (step) "speed s \<noteq> t"
      "drive_ramp_next t st s =
         Inr (Some (ramp_target t (speed s)), drive_to True (ramp_target t (speed s)) (notify st s))"
  using drive_ramp_next_stop drive_ramp_next_step by blast

lemma speed_ok_drive_ramp:
  assumes "drive_ramp t st ys s = Some r"
  shows "speed_ok s \<longrightarrow> speed_ok (state_of r)"
proof (rule drive_ramp.raw_induct
    [where P = "\<lambda>t st ys s r. speed_ok s \<longrightarrow> speed_ok (state_of r)", OF _ assms], goal_cases)
  case (1 f t st ys s r)
  show ?case
  proof (cases rule: next_cases [of s t st])
    case stop
    with 1(2) show ?thesis by (auto simp: speed_ok_def)
  next
    case step
    with 1(2) have "f t st (ys @ [ramp_target t (speed s)])
        (drive_to True (ramp_target t (speed s)) (notify st s)) = Some r" by simp
    moreover have "speed_ok (drive_to True (ramp_target t (speed s)) (notify st s))"
      by (simp add: speed_ok_def ramp_target_def clamp_speed_bounds)
    ultimately show ?thesis using 1(1) by blast
  qed
qed

lemma speed_ok_ramp_loop:
  assumes "ramp_loop sl intr t cs st s = Some r"
  shows "speed_ok s \<longrightarrow> speed_ok (state_of r)"
proof (rule ramp_loop.raw_induct
    [where P = "\<lambda>sl intr t cs st s r. speed_ok s \<longrightarrow> speed_ok (state_of r)", OF _ assms],
    goal_cases)
  case (1 f sl intr t cs st s r)
  show ?case
  proof (cases rule: next_cases [of s t st])
    case stop
    with 1(2) show ?thesis by (auto simp: speed_ok_def)
  next
    case step
    define s2 where "s2 = emit (sl cs) (drive_to True (ramp_target t (speed s)) (notify st s))"
    have ok2: "speed_ok s2"
      by (simp add: s2_def speed_ok_def ramp_target_def clamp_speed_bounds)
    show ?thesis
    proof (cases intr)
      case None
      with step 1(2) have "f sl None t cs st s2 = Some r" by (simp add: s2_def)
      then show ?thesis using ok2 1(1) by blast
    next
      case (Some ke)
      obtain k e where ke: "ke = (k, e)" by (cases ke)
      show ?thesis
      proof (cases k)
        case 0
        with Some ke step 1(2) have "r = Inl (e, s2)" by (simp add: s2_def)
        with ok2 show ?thesis by simp
      next
        case (Suc j)
        with Some ke step 1(2) have "f sl (Some (j, e)) t cs st s2 = Some r" by (simp add: s2_def)
        then show ?thesis using ok2 1(1) by blast
      qed
    qed
  qed
qed

lemma speed_ok_except:
  "speed_ok (state_of r) \<Longrightarrow> speed_ok (state_of (except_KeyboardInterrupt r))"
  by (auto simp: except_KeyboardInterrupt_def speed_ok_def split: sum.splits error.splits)

lemma reachable_speed_ok: "reachable s \<Longrightarrow> speed_ok s"
proof (induction rule: reachable.induct)
  case (r_init bits stby_pin)
  show ?case by (cases stby_pin) (simp_all add: init_None init_Some speed_ok_def fresh_def)
next
  case (r_safe_drive s intr target change_speed status_func r)
  then show ?case
    by (auto simp: safe_drive_def intro!: speed_ok_except speed_ok_ramp_loop [rule_format])
next
  case (r_safe_drive_async s intr target change_speed status_func r)
  then show ?case
    by (auto simp: safe_drive_async_def intro!: speed_ok_except speed_ok_ramp_loop [rule_format])
qed (simp_all add: speed_ok_def speed_set_motor speed_on speed_off
       speed_ok_drive [unfolded speed_ok_def] speed_ok_next [unfolded speed_ok_def]
       speed_ok_drive_ramp [rule_format, unfolded speed_ok_def])

text \<open>
  C7. The stored speed is always within \<open>[-100, 100]\<close>. A new driver stores 0 and is braked
  (both direction lines 1, duty 0). \<open>drive\<close> with a speed stores and returns that speed
  clamped into \<open>[-100, 100]\<close>; \<open>drive(200)\<close> returns 100 and \<open>drive(-200)\<close> returns -100. No
  method leaves a speed out of range behind: it holds in every reachable state.
\<close>

theorem speed_always_clamped:
  "(\<exists>s0. init bits stby_pin = Inr ((), s0) \<and> speed s0 = 0 \<and> p1 s0 = 1 \<and> p2 s0 = 1 \<and> pwm s0 = 0) \<and>
   (\<exists>s1. drive (Some x) auto_brake s = Inr (max (- 100) (min 100 x), s1) \<and>
          speed s1 = max (- 100) (min 100 x) \<and> - 100 \<le> speed s1 \<and> speed s1 \<le> 100) \<and>
   (\<exists>s1. drive (Some 200) auto_brake s = Inr (100, s1)) \<and>
   (\<exists>s1. drive (Some (- 200)) auto_brake s = Inr (- 100, s1)) \<and>
   (reachable s \<longrightarrow> - 100 \<le> speed s \<and> speed s \<le> 100)"
proof -
  have a: "\<exists>s0. init bits stby_pin = Inr ((), s0) \<and> speed s0 = 0 \<and> p1 s0 = 1 \<and> p2 s0 = 1 \<and> pwm s0 = 0"
    by (cases stby_pin) (simp_all add: init_None init_Some fresh_def)
  have b: "\<exists>s1. drive (Some y) auto_brake s = Inr (max (- 100) (min 100 y), s1) \<and>
          speed s1 = max (- 100) (min 100 y) \<and> - 100 \<le> speed s1 \<and> speed s1 \<le> 100" for y
    using clamp_speed_bounds [of y] by (simp add: drive_Some clamp_speed_def)
  have c: "\<exists>s1. drive (Some 200) auto_brake s = Inr (100, s1)"
    using b [of 200] by auto
  have d: "\<exists>s1. drive (Some (- 200)) auto_brake s = Inr (- 100, s1)"
    using b [of "- 200"] by auto
  have e: "reachable s \<longrightarrow> - 100 \<le> speed s \<and> speed s \<le> 100"
    using reachable_speed_ok [of s] by (simp add: speed_ok_def)
  from a b c d e show ?thesis by blast
qed

theorem speed_always_clamped_witness:
  "reachable (state_of (drive (Some 200) True (state_of (init 53 None)))) \<and>
   speed (state_of (drive (Some 200) True (state_of (init 53 None)))) = 100 \<and>
   - 100 \<le> speed (state_of (drive (Some 200) True (state_of (init 53 None)))) \<and>
   speed (state_of (drive (Some 200) True (state_of (init 53 None)))) \<le> 100"
proof -
  have h: "reachable (state_of (drive (Some 200) True (state_of (init 53 None))))"
    by (intro r_drive r_init)
  show ?thesis
    using h speed_always_clamped [of 53 None 200 True "state_of (drive (Some 200) True (state_of (init 53 None)))"]
    by (simp add: drive_Some clamp_speed_def)
qed

section \<open>Direction tokens\<close>

text \<open>
  A token that names no attribute \<open>set_...\<close> is refused with \<open>ValueError\<close>, and nothing is
  written.
\<close>

lemma set_motor_unknown:
  "direction \<notin> {''raw_values'', ''forward'', ''reverse'', ''motor''} \<Longrightarrow>
   set_motor direction x s = Inl (ValueError (''Invalid direction: '' @ direction), s)"
  by (simp add: set_motor_def getattr_set_def)

text \<open>
  C1. The token \<open>raw_values\<close> is not one of \<open>forward\<close> and \<open>reverse\<close>, yet
  \<open>set_motor('raw_values', 100)\<close> on a new driver raises nothing: \<open>getattr\<close> finds the method
  \<open>set_raw_values\<close>, the call without arguments writes nothing, and the duty 65535 is then
  written to the PWM. The token \<open>motor\<close> finds \<open>set_motor\<close> itself, and the call without
  arguments raises \<open>TypeError\<close>, not \<open>ValueError\<close>. It is so with 53-bit and with 24-bit
  floats.
\<close>

theorem set_motor_raw_values_is_accepted:
  "set_motor ''raw_values'' 100 (state_of (init 53 None)) =
     Inr ((), set_duty 65535 (state_of (init 53 None))) \<and>
   trace (state_of (set_motor ''raw_values'' 100 (state_of (init 53 None)))) =
     trace (state_of (init 53 None)) @ [Pwm_duty_u16 65535] \<and>
   set_motor ''motor'' 100 (state_of (init 53 None)) = Inl (TypeError, state_of (init 53 None)) \<and>
   set_motor ''raw_values'' 100 (state_of (init 24 None)) =
     Inr ((), set_duty 65535 (state_of (init 24 None))) \<and>
   trace (state_of (set_motor ''raw_values'' 100 (state_of (init 24 None)))) =
     trace (state_of (init 24 None)) @ [Pwm_duty_u16 65535] \<and>
   set_motor ''motor'' 100 (state_of (init 24 None)) = Inl (TypeError, state_of (init 24 None))"
  by (simp add: set_motor_def getattr_set_def call_method_def set_duty_def [symmetric]
      init_None fresh_def ptd_values_53 ptd_values_24)

section \<open>A ramp through zero\<close>

lemma drive_to_zero: "drive_to True 0 s = brake (s\<lparr>speed := 0\<rparr>)"
  by (simp add: drive_to_def)

text \<open>
  C2, as amended. A ramp step whose new speed is 0 is applied by \<open>drive(0)\<close> with
  \<open>auto_brake\<close> at its default: it brakes (both direction lines 1, duty 0) and never coasts.
  Brake or coast on zero applies to every call of \<open>drive\<close> whose clamped speed is 0, that
  of a ramp step included; a call whose clamped speed is not 0 is an ordinary step.
\<close>

theorem ramp_step_to_zero_brakes:
  "(speed s \<noteq> target \<and> ramp_target target (speed s) = 0 \<longrightarrow>
      drive_ramp_next target status_func s =
        Inr (Some 0, brake ((notify status_func s)\<lparr>speed := 0\<rparr>))) \<and>
   (max (- 100) (min 100 x) = 0 \<longrightarrow>
      drive (Some x) auto_brake s =
        Inr (0, if auto_brake then brake (s\<lparr>speed := 0\<rparr>) else coast (s\<lparr>speed := 0\<rparr>))) \<and>
   (max (- 100) (min 100 x) \<noteq> 0 \<longrightarrow>
      drive (Some x) auto_brake s =
        Inr (max (- 100) (min 100 x), ordinary_step (max (- 100) (min 100 x)) s))"
proof -
  have a: "drive_ramp_next target status_func s =
        Inr (Some 0, brake ((notify status_func s)\<lparr>speed := 0\<rparr>))"
    if "speed s \<noteq> target" "ramp_target target (speed s) = 0"
    using that by (simp add: drive_ramp_next_step drive_to_zero)
  have b: "drive (Some x) auto_brake s =
        Inr (0, if auto_brake then brake (s\<lparr>speed := 0\<rparr>) else coast (s\<lparr>speed := 0\<rparr>))"
    if "clamp_speed x = 0"
    using that by (simp add: drive_Some drive_to_def)
  have c: "drive (Some x) auto_brake s = Inr (clamp_speed x, ordinary_step (clamp_speed x) s)"
    if "clamp_speed x \<noteq> 0"
    using that by (simp add: drive_Some drive_to_def ordinary_step_def)
  from a b c show ?thesis
    unfolding clamp_speed_def by blast
qed

lemma after_steps_numeral:
  "after_steps (numeral k) t st s =
     after_steps (pred_numeral k) t st (state_of (drive_ramp_next t st s))"
  by (simp add: numeral_eq_Suc)

lemma step_down:
  "target < speed s \<Longrightarrow> - 99 \<le> speed s \<Longrightarrow> speed s \<le> 101 \<Longrightarrow>
   drive_ramp_next target st s =
     Inr (Some (speed s - 1), drive_to True (speed s - 1) (notify st s))"
  by (simp add: drive_ramp_next_step ramp_target_def clamp_speed_def)


lemma speed_after_down:
  "target < speed s - of_nat n \<Longrightarrow> - 100 \<le> speed s - of_nat n \<Longrightarrow> speed s \<le> 101 \<Longrightarrow>
   speed (after_steps n target st s) = speed s - of_nat n"
proof (induction n arbitrary: s)
  case 0
  then show ?case by simp
next
  case (Suc n)
  have "drive_ramp_next target st s =
      Inr (Some (speed s - 1), drive_to True (speed s - 1) (notify st s))"
    using Suc.prems by (intro step_down) auto
  moreover have "speed (after_steps n target st (drive_to True (speed s - 1) (notify st s)))
      = speed (drive_to True (speed s - 1) (notify st s)) - of_nat n"
    using Suc.prems by (intro Suc.IH) auto
  ultimately show ?case by simp
qed

text \<open>
  C2, as stated, fails on the ramp from 10 to -3: after nine steps the stored speed is 1, and
  the tenth step, which reaches 0, leaves the driver braked, not in the state of an ordinary
  step.
\<close>

theorem ramp_through_zero_counterexample:
  "speed (after_steps 9 (- 3) False (state_of (drive (Some 10) True (state_of (init 53 None))))) = 1 \<and>
   drive_ramp_next (- 3) False
       (after_steps 9 (- 3) False (state_of (drive (Some 10) True (state_of (init 53 None))))) =
     Inr (Some 0,
          brake ((after_steps 9 (- 3) False (state_of (drive (Some 10) True (state_of (init 53 None)))))
                   \<lparr>speed := 0\<rparr>)) \<and>
   state_of (drive_ramp_next (- 3) False
       (after_steps 9 (- 3) False (state_of (drive (Some 10) True (state_of (init 53 None)))))) \<noteq>
     ordinary_step 0
       (after_steps 9 (- 3) False (state_of (drive (Some 10) True (state_of (init 53 None)))))"
proof -
  define s9 where
    "s9 = after_steps 9 (- 3) False (state_of (drive (Some 10) True (state_of (init 53 None))))"
  have sp: "speed s9 = 1"
    unfolding s9_def by (subst speed_after_down) (simp_all add: drive_Some clamp_speed_def)
  have nx: "drive_ramp_next (- 3) False s9 = Inr (Some 0, brake (s9\<lparr>speed := 0\<rparr>))"
    using sp by (simp add: step_down drive_to_def notify_def)
  have "p2 (brake (s9\<lparr>speed := 0\<rparr>)) \<noteq> p2 (ordinary_step 0 s9)"
    by (simp add: ordinary_step_def)
  then have "brake (s9\<lparr>speed := 0\<rparr>) \<noteq> ordinary_step 0 s9"
    by (rule contrapos_nn) (simp only:)
  with sp nx show ?thesis
    unfolding s9_def by simp
qed

theorem ramp_step_to_zero_brakes_witness:
  "speed (state_of (drive (Some 1) True (state_of (init 53 None)))) \<noteq> - 3 \<and>
   ramp_target (- 3) (speed (state_of (drive (Some 1) True (state_of (init 53 None))))) = 0 \<and>
   drive_ramp_next (- 3) False (state_of (drive (Some 1) True (state_of (init 53 None)))) =
     Inr (Some 0, brake ((state_of (drive (Some 1) True (state_of (init 53 None))))\<lparr>speed := 0\<rparr>)) \<and>
   max (- 100) (min 100 (0::rat)) = 0 \<and>
   drive (Some 0) False (state_of (init 53 None)) =
     Inr (0, coast ((state_of (init 53 None))\<lparr>speed := 0\<rparr>)) \<and>
   max (- 100) (min 100 (200::rat)) \<noteq> 0 \<and>
   drive (Some 200) True (state_of (init 53 None)) = Inr (100, ordinary_step 100 (state_of (init 53 None)))"
proof -
  let ?s = "state_of (drive (Some 1) True (state_of (init 53 None)))"
  have h1: "speed ?s \<noteq> - 3 \<and> ramp_target (- 3) (speed ?s) = 0"
    by (simp add: drive_Some clamp_speed_def ramp_target_def)
  have h2: "max (- 100) (min 100 (0::rat)) = 0" by simp
  have h3: "max (- 100) (min 100 (200::rat)) \<noteq> 0" by simp
  show ?thesis
    using h1 h2 h3
      ramp_step_to_zero_brakes [of ?s "- 3" False 0 False]
      ramp_step_to_zero_brakes [of "state_of (init 53 None)" 0 False 0 False]
      ramp_step_to_zero_brakes [of "state_of (init 53 None)" 0 False 200 True]
    by (simp add: notify_def)
qed

section \<open>Ramps between integer speeds\<close>

lemma drive_ramp_stop:
  "speed s = t \<Longrightarrow> drive_ramp t st ys s = Some (Inr (ys, notify st s))"
  by (subst drive_ramp.simps) (simp add: drive_ramp_next_stop)

lemma drive_ramp_step:
  "speed s \<noteq> t \<Longrightarrow>
   drive_ramp t st ys s =
     drive_ramp t st (ys @ [ramp_target t (speed s)])
       (drive_to True (ramp_target t (speed s)) (notify st s))"
  by (subst drive_ramp.simps) (simp add: drive_ramp_next_step)

lemma ramp_target_up:
  "c < t \<Longrightarrow> - 101 \<le> c \<Longrightarrow> c \<le> 99 \<Longrightarrow> ramp_target (of_int t) (of_int c) = of_int (c + 1)"
  by (simp add: ramp_target_def clamp_speed_def)

lemma ramp_target_down:
  "t < c \<Longrightarrow> - 99 \<le> c \<Longrightarrow> c \<le> 101 \<Longrightarrow> ramp_target (of_int t) (of_int c) = of_int (c - 1)"
  by (simp add: ramp_target_def clamp_speed_def)

lemma ramp_up:
  "speed s = of_int c \<Longrightarrow> - 101 \<le> c \<Longrightarrow> c + int n \<le> 100 \<Longrightarrow>
   \<exists>s'. drive_ramp (of_int (c + int n)) st ys s =
          Some (Inr (ys @ map (\<lambda>i. of_int (c + 1 + int i)) [0..<n], s')) \<and>
        speed s' = of_int (c + int n)"
proof (induction n arbitrary: c s ys)
  case 0
  then show ?case by (simp add: drive_ramp_stop)
next
  case (Suc n)
  let ?t = "of_int (c + int (Suc n)) :: rat"
  let ?s1 = "drive_to True (of_int (c + 1)) (notify st s)"
  have ne: "speed s \<noteq> ?t"
    using Suc.prems by simp
  have rt: "ramp_target ?t (speed s) = of_int (c + 1)"
    using Suc.prems ramp_target_up [of c "c + int (Suc n)"] by simp
  have step: "drive_ramp ?t st ys s = drive_ramp ?t st (ys @ [of_int (c + 1)]) ?s1"
    using drive_ramp_step [OF ne] rt by simp
  have "\<exists>s'. drive_ramp (of_int (c + 1 + int n)) st (ys @ [of_int (c + 1)]) ?s1 =
          Some (Inr ((ys @ [of_int (c + 1)]) @ map (\<lambda>i. of_int (c + 1 + 1 + int i)) [0..<n], s')) \<and>
        speed s' = of_int (c + 1 + int n)"
    using Suc.prems by (intro Suc.IH) simp_all
  moreover have "c + 1 + int n = c + int (Suc n)" by simp
  moreover have "(ys @ [of_int (c + 1)]) @ map (\<lambda>i. of_int (c + 1 + 1 + int i) :: rat) [0..<n]
      = ys @ map (\<lambda>i. of_int (c + 1 + int i)) [0..<Suc n]"
    by (simp add: map_upt_Suc add.assoc add.commute del: upt_Suc)
  ultimately show ?case
    using step by (simp del: upt_Suc of_nat_Suc)
qed

lemma ramp_down:
  "speed s = of_int c \<Longrightarrow> c \<le> 101 \<Longrightarrow> - 100 \<le> c - int n \<Longrightarrow>
   \<exists>s'. drive_ramp (of_int (c - int n)) st ys s =
          Some (Inr (ys @ map (\<lambda>i. of_int (c - 1 - int i)) [0..<n], s')) \<and>
        speed s' = of_int (c - int n)"
proof (induction n arbitrary: c s ys)
  case 0
  then show ?case by (simp add: drive_ramp_stop)
next
  case (Suc n)
  let ?t = "of_int (c - int (Suc n)) :: rat"
  let ?s1 = "drive_to True (of_int (c - 1)) (notify st s)"
  have ne: "speed s \<noteq> ?t"
    using Suc.prems by simp
  have rt: "ramp_target ?t (speed s) = of_int (c - 1)"
    using Suc.prems ramp_target_down [of "c - int (Suc n)" c] by simp
  have step: "drive_ramp ?t st ys s = drive_ramp ?t st (ys @ [of_int (c - 1)]) ?s1"
    using drive_ramp_step [OF ne] rt by simp
  have "\<exists>s'. drive_ramp (of_int (c - 1 - int n)) st (ys @ [of_int (c - 1)]) ?s1 =
          Some (Inr ((ys @ [of_int (c - 1)]) @ map (\<lambda>i. of_int (c - 1 - 1 - int i)) [0..<n], s')) \<and>
        speed s' = of_int (c - 1 - int n)"
    using Suc.prems by (intro Suc.IH) simp_all
  moreover have "c - 1 - int n = c - int (Suc n)" by simp
  moreover have "(ys @ [of_int (c - 1)]) @ map (\<lambda>i. of_int (c - 1 - 1 - int i) :: rat) [0..<n]
      = ys @ map (\<lambda>i. of_int (c - 1 - int i)) [0..<Suc n]"
    by (simp add: map_upt_Suc algebra_simps del: upt_Suc)
  ultimately show ?case
    using step by (simp del: upt_Suc of_nat_Suc)
qed

lemma ramp_integers:
  assumes "- 100 \<le> c" "c \<le> 100" "- 100 \<le> t" "t \<le> 100" "speed s = of_int c"
  shows "\<exists>s'. drive_ramp (of_int t) st [] s = Some (Inr (unit_steps c t, s')) \<and>
              speed s' = of_int t"
proof (cases "c \<le> t")
  case True
  define n where "n = nat \<bar>t - c\<bar>"
  have t: "c + int n = t"
    using True by (simp add: n_def)
  have us: "unit_steps c t = map (\<lambda>i. of_int (c + 1 + int i)) [0..<n]"
    using True by (simp add: unit_steps_def n_def)
  have "\<exists>s'. drive_ramp (of_int (c + int n)) st [] s =
          Some (Inr ([] @ map (\<lambda>i. of_int (c + 1 + int i)) [0..<n], s')) \<and>
        speed s' = of_int (c + int n)"
    using assms t by (intro ramp_up) simp_all
  then show ?thesis
    by (simp only: us t append_Nil)
next
  case False
  define n where "n = nat \<bar>t - c\<bar>"
  have t: "c - int n = t"
    using False by (simp add: n_def)
  have us: "unit_steps c t = map (\<lambda>i. of_int (c - 1 - int i)) [0..<n]"
    using False by (simp add: unit_steps_def n_def)
  have "\<exists>s'. drive_ramp (of_int (c - int n)) st [] s =
          Some (Inr ([] @ map (\<lambda>i. of_int (c - 1 - int i)) [0..<n], s')) \<and>
        speed s' = of_int (c - int n)"
    using assms t by (intro ramp_down) simp_all
  then show ?thesis
    by (simp only: us t append_Nil)
qed

lemma unit_steps_0_5: "unit_steps 0 5 = [1, 2, 3, 4, 5]"
  by (simp add: unit_steps_def upt_rec)

lemma unit_steps_10_m3: "unit_steps 10 (- 3) = [9, 8, 7, 6, 5, 4, 3, 2, 1, 0, - 1, - 2, - 3]"
  by (simp add: unit_steps_def upt_rec)

lemma unit_steps_nth:
  "i < nat \<bar>t - c\<bar> \<Longrightarrow>
   unit_steps c t ! i = of_int (if c \<le> t then c + 1 + int i else c - 1 - int i)"
  by (simp add: unit_steps_def)

lemma unit_steps_length: "length (unit_steps c t) = nat \<bar>t - c\<bar>"
  by (simp add: unit_steps_def)

lemma unit_steps_unit:
  assumes "i < length (unit_steps c t)"
  shows "\<bar>unit_steps c t ! i - (of_int c # unit_steps c t) ! i\<bar> = 1"
proof (cases i)
  case 0
  with assms show ?thesis
    by (simp add: unit_steps_length unit_steps_nth)
next
  case (Suc j)
  with assms have "j < nat \<bar>t - c\<bar>" "i < nat \<bar>t - c\<bar>"
    by (simp_all add: unit_steps_length)
  then show ?thesis
    using Suc by (simp add: unit_steps_nth)
qed

text \<open>
  C4. Between integer speeds (of the range \<open>[-100, 100]\<close> of a speed) the ramp yields exactly
  the unit steps from the current speed toward the target, in order, and ends at the target:
  from 0 to 5 it yields 1, 2, 3, 4, 5 and from 10 to -3 it yields 9, 8, ..., -3. Each yielded
  value differs by exactly 1 from the speed stored before it, and none lies beyond the target.
\<close>

theorem ramp_yields_unit_steps:
  "- 100 \<le> c \<Longrightarrow> c \<le> 100 \<Longrightarrow> - 100 \<le> t \<Longrightarrow> t \<le> 100 \<Longrightarrow> speed s = of_int c \<Longrightarrow>
   (\<exists>s'. drive_ramp (of_int t) status_func [] s = Some (Inr (unit_steps c t, s')) \<and>
         speed s' = of_int t) \<and>
   length (unit_steps c t) = nat \<bar>t - c\<bar> \<and>
   (\<forall>i < length (unit_steps c t).
      unit_steps c t ! i = of_int (if c \<le> t then c + 1 + int i else c - 1 - int i) \<and>
      \<bar>unit_steps c t ! i - (speed s # unit_steps c t) ! i\<bar> = 1) \<and>
   (c = 0 \<and> t = 5 \<longrightarrow> unit_steps c t = [1, 2, 3, 4, 5]) \<and>
   (c = 10 \<and> t = - 3 \<longrightarrow> unit_steps c t = [9, 8, 7, 6, 5, 4, 3, 2, 1, 0, - 1, - 2, - 3])"
  using ramp_integers [of c t s status_func] unit_steps_unit [of _ c t]
  by (simp add: unit_steps_length unit_steps_nth unit_steps_0_5 unit_steps_10_m3)

theorem ramp_yields_unit_steps_witness:
  "(\<exists>s'. drive_ramp 5 False [] (state_of (init 53 None)) = Some (Inr ([1, 2, 3, 4, 5], s')) \<and>
         speed s' = 5) \<and>
   (\<exists>s'. drive_ramp (- 3) False [] (state_of (drive (Some 10) True (state_of (init 53 None)))) =
           Some (Inr ([9, 8, 7, 6, 5, 4, 3, 2, 1, 0, - 1, - 2, - 3], s')) \<and>
         speed s' = - 3)"
proof -
  have a: "speed (state_of (init 53 None)) = of_int 0"
    by (simp add: init_None fresh_def)
  have b: "speed (state_of (drive (Some 10) True (state_of (init 53 None)))) = of_int 10"
    by (simp add: drive_Some clamp_speed_def)
  have up: "\<exists>s'. drive_ramp 5 False [] (state_of (init 53 None)) =
                 Some (Inr ([1, 2, 3, 4, 5], s')) \<and> speed s' = 5"
    using ramp_yields_unit_steps [of 0 5 "state_of (init 53 None)" False, OF _ _ _ _ a]
    by simp (elim conjE exE, simp)
  have down: "\<exists>s'. drive_ramp (- 3) False []
                   (state_of (drive (Some 10) True (state_of (init 53 None)))) =
                 Some (Inr ([9, 8, 7, 6, 5, 4, 3, 2, 1, 0, - 1, - 2, - 3], s')) \<and> speed s' = - 3"
    using ramp_yields_unit_steps
        [of 10 "- 3" "state_of (drive (Some 10) True (state_of (init 53 None)))" False, OF _ _ _ _ b]
    by simp (elim conjE exE, simp)
  from up down show ?thesis
    by (rule conjI)
qed

section \<open>The observer\<close>







section \<open>A target between two integers\<close>

lemma ramp_to_half_never_returns:
  assumes "drive_ramp t st ys s = Some r"
  shows "t = 1 / 2 \<longrightarrow> (speed s = 0 \<or> speed s = 1) \<longrightarrow> False"
proof (rule drive_ramp.raw_induct
    [where P = "\<lambda>t st ys s r. t = 1 / 2 \<longrightarrow> (speed s = 0 \<or> speed s = 1) \<longrightarrow> False", OF _ assms],
    goal_cases)
  case (1 f t st ys s r)
  show ?case
  proof (intro impI)
    assume t: "t = 1 / 2" and sp: "speed s = 0 \<or> speed s = 1"
    from t sp have ne: "speed s \<noteq> t" by auto
    let ?p = "ramp_target t (speed s)"
    from t sp have p: "?p = 0 \<or> ?p = 1"
      by (auto simp: ramp_target_def clamp_speed_def)
    from ne 1(2) have "f t st (ys @ [?p]) (drive_to True ?p (notify st s)) = Some r"
      by (simp add: drive_ramp_next_step)
    from 1(1) [OF this] have "t = 1 / 2 \<longrightarrow> (?p = 0 \<or> ?p = 1) \<longrightarrow> False"
      by (simp only: drive_to_fields)
    with t p show False
      by blast
  qed
qed

text \<open>
  C3. The target 0.5 lies in \<open>[-100, 100]\<close>, and the ramp toward it from the speed 0 of a new
  driver does not terminate: the stored speed goes 0, 1, 0, 1, ... and never equals the
  target, so the generator is never exhausted. The numbers 0, 1/2 and 1 are floats of every
  width, and the width plays no part.
\<close>

theorem ramp_to_a_half_never_ends:
  "drive_ramp (1 / 2) False [] (state_of (init bits None)) = None \<and>
   speed (state_of (init bits None)) = 0 \<and>
   speed (after_steps 1 (1 / 2) False (state_of (init bits None))) = 1 \<and>
   speed (after_steps 2 (1 / 2) False (state_of (init bits None))) = 0"
proof -
  have z: "speed (state_of (init bits None)) = 0"
    by (simp add: init_None fresh_def)
  have "drive_ramp (1 / 2) False [] (state_of (init bits None)) \<noteq> Some r" for r
    using ramp_to_half_never_returns [of "1 / 2" False "[]" "state_of (init bits None)" r] z
    by auto
  then have "drive_ramp (1 / 2) False [] (state_of (init bits None)) = None"
    by (cases "drive_ramp (1 / 2) False [] (state_of (init bits None))") auto
  moreover have "speed (after_steps 1 (1 / 2) False (state_of (init bits None))) = 1"
    using z by (simp add: drive_ramp_next_step ramp_target_def clamp_speed_def)
  moreover have "speed (after_steps 2 (1 / 2) False (state_of (init bits None))) = 0"
    using z by (simp add: numeral_2_eq_2 drive_ramp_next_step ramp_target_def clamp_speed_def)
  ultimately show ?thesis
    using z by simp
qed

section \<open>Cancellation\<close>

lemma ramp_loop_stop:
  "speed s = t \<Longrightarrow> ramp_loop sl intr t cs st s = Some (Inr ((), notify st s))"
  by (subst ramp_loop.simps) (simp add: drive_ramp_next_stop)



















end
